theory Spec2Isabelle
  imports Complex_Main
begin

section \<open>TASMIP tungsten-anode spectrum generator (Library/Imaging/Tasmip.hpp)\<close>

text \<open>
  The function \<open>solutio::Tasmip\<close> evaluates, for each of the 151 energy bins, an
  empirical polynomial in the tube potential, attenuates it by the filtration and
  normalises the bins by their trapezoidal integral.

  Numbers: \<open>int tube_potential\<close> is only compared with the bin index and passed
  to \<open>pow\<close>, so it is an \<open>int\<close>. A finite \<open>double\<close> is idealised as a \<open>real\<close>:
  rounding and overflow are not modelled, and the decimal literals of the table stand for
  their exact values. The one operation of the function that is undefined on reals is the
  final division by the integral, which may be 0; its result type \<open>dbl\<close> carries the
  IEEE-754 special values.

  Where the doubles of the code round, the model is exact. Where they underflow to 0 or
  overflow to infinity, which takes an attenuation factor below \<open>exp (-745)\<close> or above
  \<open>exp 709\<close>, the model keeps a nonzero finite number: a statement that depends on whether
  the total is 0 is made for \<open>|mu * filtration_mm| \<le> 6000\<close>, where neither happens.

  The accumulator \<open>sum\<close> of the source is called \<open>sum1\<close> here.
\<close>

subsection \<open>Doubles and the division of the normalisation\<close>

datatype dbl = Finite real | PInf | NInf | NaN

text \<open>
  \<open>x / s\<close> on doubles: an ordinary quotient for \<open>s \<noteq> 0\<close>; for \<open>s = 0\<close> the
  IEEE-754 results \<open>0/0 = NaN\<close> and \<open>x/0 = \<plusminus>inf\<close>. The divisor of the
  function is an accumulator started at \<open>0.0\<close>, which is never the negative zero.
\<close>

definition ddiv :: "real \<Rightarrow> real \<Rightarrow> dbl" where
  "ddiv x s =
     (if s \<noteq> 0 then Finite (x / s)
      else if x = 0 then NaN
      else if 0 < x then PInf
      else NInf)"

fun is_finite :: "dbl \<Rightarrow> bool" where
  "is_finite (Finite x) = True"
| "is_finite _ = False"

subsection \<open>The attenuation provider\<close>

text \<open>
  Modelled from the spec: the class \<open>NistPad\<close> of \<open>Physics/NistPad.hpp\<close>, which is
  not part of the sources at hand. Its constructor binds a folder and a material, its method
  \<open>LinearAttenuation\<close> answers a query at an energy in MeV; both may fail with an
  error that the caller does not handle.
\<close>

datatype error = MaterialNotFound | EnergyOutOfRange

type_synonym NistPad = "real \<Rightarrow> error + real"

type_synonym NistPad_new = "string \<Rightarrow> string \<Rightarrow> error + NistPad"

subsection \<open>The embedded tables\<close>

definition num_polynomial_terms :: "nat list" where
  "num_polynomial_terms = [
      0,0,0,0,0,0,0,0,0,0,3,4,4,4,4,4,4,4,4,4,4,4,4,4,4,4,4,4,4,4,
      4,4,4,4,4,4,4,4,4,4,4,4,4,4,4,4,4,4,4,4,4,4,4,4,4,4,4,4,4,4,
      4,4,4,4,4,4,4,4,4,4,4,4,4,4,4,4,4,4,4,4,4,4,4,3,3,3,3,3,3,3,
      3,3,3,3,3,3,3,3,3,3,3,3,3,3,3,3,3,3,3,3,3,3,3,3,3,3,3,3,3,3,
      3,3,3,2,2,2,2,2,2,1,2,1,2,1,1,1,1,1,1,1,1,0,0,0,0,0,0,0,0,0,
      0
    ]"

definition polynomial_coefficients :: "real list" where
  "polynomial_coefficients = [
      0, 0, 0, 0,
      0, 0, 0, 0,
      0, 0, 0, 0,
      0, 0, 0, 0,
      0, 0, 0, 0,
      0, 0, 0, 0,
      0, 0, 0, 0,
      0, 0, 0, 0,
      0, 0, 0, 0,
      0, 0, 0, 0,
      - 2.47098, 0.0752249, 0.00016013, 0,
      - 54.6852, 2.82597, - 0.0370259, 0.000168545,
      - 114.966, 7.18167, - 0.104151, 0.000524694,
      - 20.2312, 7.52303, - 0.0972592, 0.000526235,
      344.016, 3.17957, - 0.0330693, 0.000311553,
      549.329, 15.0793, - 0.0965665, 0.000514238,
      1032.55, 27.9346, - 0.151778, 0.000649103,
      1056.84, 53.0529, 0.0400621, - 0.000716451,
      1098.84, 82.95, 0.306165, - 0.00261713,
      495.798, 147.004, - 0.110282, - 0.00135451,
      - 143.783, 222.91, - 0.620631, 0.000189685,
      - 1106.66, 277.05, - 0.574362, - 0.00106621,
      - 2281.77, 342.442, - 0.579332, - 0.00230358,
      - 5591.72, 472.413, - 1.42996, 0.000504908,
      - 9340.54, 618.637, - 2.40787, 0.00370171,
      - 14065, 776.049, - 3.4304, 0.00664641,
      - 19203.2, 941.867, - 4.54481, 0.00992016,
      - 25159.5, 1130.91, - 5.99764, 0.0144155,
      - 31519.3, 1331.12, - 7.55688, 0.019258,
      - 31659.4, 1293.12, - 6.62524, 0.0159367,
      - 31977, 1259.43, - 5.72172, 0.0126961,
      - 31502, 1213.02, - 4.9954, 0.0106863,
      - 34045.4, 1273.28, - 5.44075, 0.0127505,
      - 35257.5, 1267.17, - 5.05259, 0.0114025,
      - 36598, 1264.49, - 4.69822, 0.0101743,
      - 39355.2, 1325.72, - 5.26013, 0.0125117,
      - 42394.5, 1396.68, - 5.96159, 0.0153918,
      - 45054.8, 1445.3, - 6.32455, 0.0165782,
      - 48074.4, 1506.53, - 6.84101, 0.0183228,
      - 47721.8, 1455.01, - 6.18372, 0.0160985,
      - 46872.6, 1383.59, - 5.29642, 0.0130534,
      - 45340, 1304.46, - 4.45863, 0.0102913,
      - 47296.7, 1337.3, - 4.76811, 0.0112984,
      - 45921.6, 1239.85, - 3.6517, 0.00750512,
      - 44176.2, 1131.55, - 2.4227, 0.00334071,
      - 49753.2, 1307.91, - 4.4909, 0.0109328,
      - 56131.9, 1511.97, - 6.8753, 0.0196294,
      - 55240.7, 1421.87, - 5.66911, 0.0148764,
      - 54499.4, 1337.32, - 4.52793, 0.0103572,
      - 58841.9, 1478.83, - 6.29327, 0.0168762,
      - 63109.8, 1616.22, - 8.00933, 0.0232159,
      - 59955.9, 1496.68, - 6.90603, 0.0197785,
      - 59641, 1456.7, - 6.53432, 0.0185367,
      - 61325.5, 1489.14, - 6.9568, 0.0200507,
      - 63048.9, 1522.43, - 7.39089, 0.0216112,
      - 59943.4, 1380.87, - 5.83974, 0.0161994,
      - 56108.7, 1218.27, - 4.0921, 0.0101841,
      - 18257.3, - 138.212, 9.55782, - 0.0214005,
      22200.2, - 1568.66, 23.8981, - 0.0550569,
      55017.1, - 2721.16, 35.278, - 0.080474,
      89229.4, - 3915.85, 47.0499, - 0.107056,
      21049.9, - 1557.36, 23.2189, - 0.0513497,
      - 50765.2, 903.221, - 1.57983, 0.0073063,
      - 60307.9, 1202.07, - 4.55231, 0.0141953,
      - 69849.9, 1499.85, - 7.51309, 0.021038,
      - 71086.4, 1507.31, - 7.47214, 0.020248,
      - 73275.4, 1540.89, - 7.68993, 0.0202855,
      - 31611.8, 129.777, 6.39248, - 0.0169374,
      10363, - 1288.01, 20.5198, - 0.054239,
      - 41324.9, 442.09, 2.4486, 0.0000220225,
      - 99831.4, 2351.14, - 17.2219, 0.0589682,
      - 83458.3, 1820.26, - 11.4076, 0.0347451,
      - 60380.5, 1099.14, - 3.83639, 0.00521521,
      - 73322.3, 1472.74, - 7.48113, 0.0164473,
      - 88668.9, 1911.74, - 11.7274, 0.029487,
      - 89062.8, 1903.69, - 11.6664, 0.0295337,
      - 91220.8, 1949.91, - 12.124, 0.0311903,
      - 91959.2, 1956.64, - 12.2202, 0.0315568,
      - 93935, 1997.57, - 12.6445, 0.0329425,
      - 94605.9, 1985.57, - 12.4063, 0.0318846,
      - 94659.1, 1947.31, - 11.9191, 0.0300554,
      - 105496, 2287.74, - 15.4656, 0.0419277,
      - 112882, 2523.28, - 18.0638, 0.0509944,
      - 56523.8, 846.081, - 1.8903, 0,
      - 62531.1, 954.621, - 2.42146, 0,
      - 60632.5, 909.326, - 2.22283, 0,
      - 58390.9, 858.149, - 1.99938, 0,
      - 61774.4, 909.695, - 2.21962, 0,
      - 65513.4, 967.438, - 2.46616, 0,
      - 64821.1, 946.375, - 2.38406, 0,
      - 63965.9, 922.536, - 2.29053, 0,
      - 59763.8, 838.469, - 1.91813, 0,
      - 54832.4, 741.841, - 1.49268, 0,
      - 55459.1, 739.222, - 1.46675, 0,
      - 51918.7, 667.713, - 1.15944, 0,
      - 53372.6, 686.444, - 1.24856, 0,
      - 54997.1, 708.082, - 1.34986, 0,
      - 61098.6, 810.304, - 1.80524, 0,
      - 67803.1, 922.439, - 2.30102, 0,
      - 64635.7, 853.616, - 1.98054, 0,
      - 61423.2, 784.198, - 1.65825, 0,
      - 65425.7, 855.126, - 1.99914, 0,
      - 68502.2, 910.44, - 2.27525, 0,
      - 67751.8, 873.305, - 2.05065, 0,
      - 56709.9, 671.731, - 1.17464, 0,
      - 64311.6, 798.217, - 1.73021, 0,
      - 72847.8, 939.704, - 2.34536, 0,
      - 72963.7, 937.042, - 2.34909, 0,
      - 72519.7, 925.69, - 2.31858, 0,
      - 73737.9, 938.756, - 2.37174, 0,
      - 75221.4, 955.706, - 2.44056, 0,
      - 66450.1, 812.994, - 1.89208, 0,
      - 53917.2, 611.114, - 1.1108, 0,
      - 69501.1, 838.185, - 1.94384, 0,
      - 76568.4, 934.029, - 2.2728, 0,
      - 71698.2, 856.269, - 1.99406, 0,
      - 63076.5, 719.95, - 1.49034, 0,
      - 68961, 801.466, - 1.78594, 0,
      - 79488, 954.546, - 2.35645, 0,
      - 80389.4, 960.394, - 2.36806, 0,
      - 81865.5, 974.475, - 2.41113, 0,
      - 81272.3, 978.439, - 2.50146, 0,
      - 64478.5, 732.755, - 1.63899, 0,
      - 38069.8, 313.166, 0, 0,
      - 37978.1, 310.109, 0, 0,
      - 40233.9, 325.521, 0, 0,
      - 42809.4, 343.283, 0, 0,
      - 41146.7, 327.276, 0, 0,
      - 39259.7, 309.655, 0, 0,
      319.165, 0, 0, 0,
      - 44258, 342.54, 0, 0,
      81.1561, 0, 0, 0,
      - 38679.9, 296.981, 0, 0,
      1306.71, 0, 0, 0,
      1153.42, 0, 0, 0,
      981.706, 0, 0, 0,
      809.966, 0, 0, 0,
      668.884, 0, 0, 0,
      527.781, 0, 0, 0,
      349.834, 0, 0, 0,
      171.861, 0, 0, 0,
      0, 0, 0, 0,
      0, 0, 0, 0,
      0, 0, 0, 0,
      0, 0, 0, 0,
      0, 0, 0, 0,
      0, 0, 0, 0,
      0, 0, 0, 0,
      0, 0, 0, 0,
      0, 0, 0, 0,
      0, 0, 0, 0
    ]"

subsection \<open>The bin loop\<close>

text \<open>The inner loop \<open>for (t = 0; t < num_polynomial_terms[n]; t++) sum += ...\<close>.\<close>

function poly_loop :: "int \<Rightarrow> nat \<Rightarrow> nat \<Rightarrow> real \<Rightarrow> real" where
  "poly_loop tube_potential n t sum1 =
     (if t < num_polynomial_terms ! n
      then poly_loop tube_potential n (t + 1)
             (sum1 + polynomial_coefficients ! (4 * n + t) * of_int tube_potential ^ t)
      else sum1)"
  by pat_completeness auto
termination
  by (relation "measure (\<lambda>(tube_potential, n, t, sum1). num_polynomial_terms ! n - t)") auto

text \<open>The body of the outer loop: the value pushed for bin \<open>n\<close>.\<close>

definition bin_value :: "NistPad \<Rightarrow> int \<Rightarrow> real \<Rightarrow> nat \<Rightarrow> error + real" where
  "bin_value NistAl tube_potential mm_filtration n =
     (if num_polynomial_terms ! n = 0 \<or> tube_potential \<le> int n then Inr 0
      else
        (let energy = real n / 1000.0 in
         case NistAl energy of
           Inl e \<Rightarrow> Inl e
         | Inr mu \<Rightarrow>
             (let attenuation = exp (- mu * mm_filtration * 0.1);
                  sum1 = poly_loop tube_potential n 0 0.0
              in Inr (sum1 * attenuation))))"

text \<open>The outer loop \<open>for (n = 0; n < 151; n++)\<close>, pushing one value per bin.\<close>

function spectrum_loop ::
  "NistPad \<Rightarrow> int \<Rightarrow> real \<Rightarrow> nat \<Rightarrow> real list \<Rightarrow> error + real list" where
  "spectrum_loop NistAl tube_potential mm_filtration n spectrum =
     (if n < 151
      then (case bin_value NistAl tube_potential mm_filtration n of
              Inl e \<Rightarrow> Inl e
            | Inr v \<Rightarrow>
                spectrum_loop NistAl tube_potential mm_filtration (n + 1) (spectrum @ [v]))
      else Inr spectrum)"
  by pat_completeness auto
termination
  by (relation "measure (\<lambda>(NistAl, tube_potential, mm_filtration, n, spectrum). 151 - n)") auto

subsection \<open>Normalisation\<close>

text \<open>\<open>for (n = 0; n < 150; n++) sum += (spectrum[n] + spectrum[n+1]) / 2.0\<close>\<close>

function trapezoid_loop :: "real list \<Rightarrow> nat \<Rightarrow> real \<Rightarrow> real" where
  "trapezoid_loop spectrum n sum1 =
     (if n < 150
      then trapezoid_loop spectrum (n + 1) (sum1 + (spectrum ! n + spectrum ! (n + 1)) / 2.0)
      else sum1)"
  by pat_completeness auto
termination
  by (relation "measure (\<lambda>(spectrum, n, sum1). 150 - n)") auto

text \<open>\<open>for (n = 0; n < 151; n++) spectrum[n] /= sum\<close>\<close>

function divide_loop :: "real list \<Rightarrow> real \<Rightarrow> nat \<Rightarrow> dbl list \<Rightarrow> dbl list" where
  "divide_loop spectrum sum1 n out =
     (if n < 151
      then divide_loop spectrum sum1 (n + 1) (out @ [ddiv (spectrum ! n) sum1])
      else out)"
  by pat_completeness auto
termination
  by (relation "measure (\<lambda>(spectrum, sum1, n, out). 151 - n)") auto

subsection \<open>The function\<close>

definition Tasmip ::
  "NistPad_new \<Rightarrow> int \<Rightarrow> real \<Rightarrow> string \<Rightarrow> string \<Rightarrow> error + dbl list" where
  "Tasmip nistpad tube_potential mm_filtration filter_material folder =
     (case nistpad folder filter_material of
        Inl e \<Rightarrow> Inl e
      | Inr NistAl \<Rightarrow>
          (case spectrum_loop NistAl tube_potential mm_filtration 0 [] of
             Inl e \<Rightarrow> Inl e
           | Inr spectrum \<Rightarrow>
               (let sum1 = trapezoid_loop spectrum 0 0.0
                in Inr (divide_loop spectrum sum1 0 []))))"

declare poly_loop.simps [simp del] spectrum_loop.simps [simp del]
  trapezoid_loop.simps [simp del] divide_loop.simps [simp del]

subsection \<open>Notions of the specification\<close>

text \<open>
  The trapezoidal integral of a bin sequence in the words of the specification:
  \<open>total\<close> is the sum over \<open>n = 0..149\<close> of \<open>(bin[n] + bin[n+1]) / 2\<close>.
\<close>

definition trapezoid :: "real list \<Rightarrow> real" where
  "trapezoid bins = (\<Sum>n = 0..<150. (bins ! n + bins ! (n + 1)) / 2)"

text \<open>
  The per-bin polynomial in the words of the specification:
  the sum over \<open>t = 0..degree-1\<close> of \<open>coefficient[n][t] * tube_potential^t\<close>.
\<close>

definition polynomial :: "int \<Rightarrow> nat \<Rightarrow> real" where
  "polynomial tube_potential n =
     (\<Sum>t = 0..<num_polynomial_terms ! n.
        polynomial_coefficients ! (4 * n + t) * of_int tube_potential ^ t)"

text \<open>A bin is queried at the provider when its degree is nonzero and it lies below the tube potential.\<close>

definition queried :: "int \<Rightarrow> nat \<Rightarrow> bool" where
  "queried tube_potential n \<longleftrightarrow>
     n < 151 \<and> num_polynomial_terms ! n \<noteq> 0 \<and> int n < tube_potential"

subsection \<open>Example providers\<close>

text \<open>
  Attenuation coefficients that fall with the energy; the last provider answers up to 50 keV
  only.
\<close>

definition example_NistPad :: NistPad where
  "example_NistPad energy = Inr (1 - energy)"

definition example_nistpad :: NistPad_new where
  "example_nistpad folder filter_material = Inr example_NistPad"

definition other_NistPad :: NistPad where
  "other_NistPad energy = Inr (5 - energy)"

definition other_nistpad :: NistPad_new where
  "other_nistpad folder filter_material = Inr other_NistPad"

definition short_NistPad :: NistPad where
  "short_NistPad energy = (if energy \<le> 0.05 then Inr (1 - energy) else Inl EnergyOutOfRange)"

definition short_nistpad :: NistPad_new where
  "short_nistpad folder filter_material = Inr short_NistPad"

subsection \<open>Reading a result\<close>

text \<open>Entry \<open>n\<close> of the sequence a call returns; nothing when the call fails.\<close>

definition entry :: "error + dbl list \<Rightarrow> nat \<Rightarrow> dbl option" where
  "entry r n = (case r of Inl e \<Rightarrow> None | Inr out \<Rightarrow> if n < length out then Some (out ! n) else None)"




subsection \<open>Certificates for the sign of the table's polynomials\<close>

text \<open>
  A polynomial of the table has at most four terms. It is positive on an interval when its
  coefficients in the Bernstein basis of the interval are: the two end values positive, the
  two inner coefficients non-negative. Every row of the table is checked on the tube
  potentials from 31 (or from the bin above the row's own, where that is higher) to 150,
  the rows 11 and 12 in two pieces.
\<close>

definition cubic :: "real \<Rightarrow> real \<Rightarrow> real \<Rightarrow> real \<Rightarrow> real \<Rightarrow> real" where
  "cubic a b c d x = a + b * x + c * x ^ 2 + d * x ^ 3"

definition cubic' :: "real \<Rightarrow> real \<Rightarrow> real \<Rightarrow> real \<Rightarrow> real" where
  "cubic' b c d x = b + 2 * c * x + 3 * d * x ^ 2"

definition bernstein_ok :: "real \<Rightarrow> real \<Rightarrow> real \<Rightarrow> real \<Rightarrow> real \<Rightarrow> real \<Rightarrow> bool" where
  "bernstein_ok a b c d L U \<longleftrightarrow>
     L < U \<and> 0 < cubic a b c d L \<and> 0 < cubic a b c d U \<and>
     0 \<le> 3 * cubic a b c d L + (U - L) * cubic' b c d L \<and>
     0 \<le> 3 * cubic a b c d U - (U - L) * cubic' b c d U"

fun pieces_ok :: "real \<Rightarrow> real \<Rightarrow> real \<Rightarrow> real \<Rightarrow> real list \<Rightarrow> bool" where
  "pieces_ok a b c d (L # U # bs) = (bernstein_ok a b c d L U \<and> pieces_ok a b c d (U # bs))"
| "pieces_ok a b c d _ = True"

definition breaks :: "real \<Rightarrow> real list" where
  "breaks n = (if n = 11 \<or> n = 12 then [31, 90, 150] else [max 31 (n + 1), 150])"

text \<open>The rows 13 to 29 are also checked from the bin above their own to 31.\<close>

definition breaks_low :: "real \<Rightarrow> real list" where
  "breaks_low n = (if 13 \<le> n \<and> n \<le> 29 then [n + 1, 31] else [])"

definition row_ok :: "real \<Rightarrow> nat \<Rightarrow> real \<Rightarrow> real \<Rightarrow> real \<Rightarrow> real \<Rightarrow> bool" where
  "row_ok n k a b c d \<longleftrightarrow>
     k = 0 \<or>
     (pieces_ok a (if 1 < k then b else 0) (if 2 < k then c else 0) (if 3 < k then d else 0)
        (breaks n) \<and>
      pieces_ok a (if 1 < k then b else 0) (if 2 < k then c else 0) (if 3 < k then d else 0)
        (breaks_low n))"

fun table_ok :: "real \<Rightarrow> nat list \<Rightarrow> real list \<Rightarrow> bool" where
  "table_ok n (k # ks) (a # b # c # d # cs) = (row_ok n k a b c d \<and> table_ok (n + 1) ks cs)"
| "table_ok n [] [] = True"
| "table_ok n _ _ = False"

section \<open>Properties\<close>

subsection \<open>The tables\<close>

lemma length_num_polynomial_terms: "length num_polynomial_terms = 151"
  by (simp add: num_polynomial_terms_def)

lemma length_polynomial_coefficients: "length polynomial_coefficients = 604"
  by (simp add: polynomial_coefficients_def)

lemma terms_le_4: "list_all (\<lambda>d. d \<le> 4) num_polynomial_terms"
  by (simp add: num_polynomial_terms_def)

lemma take_10_terms: "list_all (\<lambda>d. d = 0) (take 10 num_polynomial_terms)"
  by (simp add: num_polynomial_terms_def)

lemma drop_141_terms: "list_all (\<lambda>d. d = 0) (drop 141 num_polynomial_terms)"
  by (simp add: num_polynomial_terms_def)

lemma num_polynomial_terms_le_4: "n < 151 \<Longrightarrow> num_polynomial_terms ! n \<le> 4"
  using terms_le_4 by (simp add: list_all_length length_num_polynomial_terms)

lemma terms_low: "n < 10 \<Longrightarrow> num_polynomial_terms ! n = 0"
  using take_10_terms by (simp add: list_all_length length_num_polynomial_terms)

lemma terms_high: "140 < n \<Longrightarrow> n < 151 \<Longrightarrow> num_polynomial_terms ! n = 0"
proof -
  assume n: "140 < n" "n < 151"
  have "\<forall>k < 10. num_polynomial_terms ! (141 + k) = 0"
    using drop_141_terms by (simp add: list_all_length length_num_polynomial_terms)
  moreover have "n - 141 < 10" "n = 141 + (n - 141)" using n by auto
  ultimately show ?thesis by metis
qed

subsection \<open>The loops in closed form\<close>

lemma poly_loop_sum:
  "poly_loop tp n t acc =
     acc + (\<Sum>k = t..<num_polynomial_terms ! n. polynomial_coefficients ! (4 * n + k) * of_int tp ^ k)"
proof (induction tp n t acc rule: poly_loop.induct)
  case (1 tp n t acc)
  show ?case
  proof (cases "t < num_polynomial_terms ! n")
    case True
    then show ?thesis
      using "1.IH" [OF True]
      by (subst poly_loop.simps) (simp add: sum.atLeast_Suc_lessThan add.assoc)
  next
    case False
    then show ?thesis by (subst poly_loop.simps) simp
  qed
qed

lemma poly_loop_polynomial: "poly_loop tp n 0 0 = polynomial tp n"
  by (simp add: poly_loop_sum polynomial_def)

lemma trapezoid_loop_sum:
  "trapezoid_loop sp n acc = acc + (\<Sum>k = n..<150. (sp ! k + sp ! (k + 1)) / 2)"
proof (induction sp n acc rule: trapezoid_loop.induct)
  case (1 sp n acc)
  show ?case
  proof (cases "n < 150")
    case True
    then show ?thesis
      using "1.IH" [OF True]
      by (subst trapezoid_loop.simps) (simp add: sum.atLeast_Suc_lessThan add.assoc)
  next
    case False
    then show ?thesis by (subst trapezoid_loop.simps) simp
  qed
qed

lemma trapezoid_loop_trapezoid: "trapezoid_loop sp 0 0 = trapezoid sp"
  by (simp add: trapezoid_loop_sum trapezoid_def)

lemma divide_loop_map:
  "n \<le> 151 \<Longrightarrow> length sp = 151 \<Longrightarrow>
   divide_loop sp s n out = out @ map (\<lambda>x. ddiv x s) (drop n sp)"
proof (induction sp s n out rule: divide_loop.induct)
  case (1 sp s n out)
  show ?case
  proof (cases "n < 151")
    case True
    have d: "drop n sp = sp ! n # drop (Suc n) sp"
      using True "1.prems" by (simp add: Cons_nth_drop_Suc)
    show ?thesis
      using "1.IH" [OF True] True "1.prems"
      by (subst divide_loop.simps) (simp add: d)
  next
    case False
    then show ?thesis using "1.prems" by (subst divide_loop.simps) simp
  qed
qed

lemma spectrum_loop_Inr:
  "n \<le> 151 \<Longrightarrow> \<forall>k. n \<le> k \<and> k < 151 \<longrightarrow> bin_value la tp mm k = Inr (f k) \<Longrightarrow>
   spectrum_loop la tp mm n acc = Inr (acc @ map f [n..<151])"
proof (induction la tp mm n acc rule: spectrum_loop.induct)
  case (1 la tp mm n acc)
  show ?case
  proof (cases "n < 151")
    case True
    have b: "bin_value la tp mm n = Inr (f n)" using True "1.prems" by simp
    have "spectrum_loop la tp mm (n + 1) (acc @ [f n]) = Inr ((acc @ [f n]) @ map f [n + 1..<151])"
      using "1.IH" [OF True b] True "1.prems" by simp
    then show ?thesis
      using True b by (subst spectrum_loop.simps) (simp add: upt_conv_Cons)
  next
    case False
    then show ?thesis using "1.prems" by (subst spectrum_loop.simps) simp
  qed
qed

lemma spectrum_loop_Inr_D:
  "spectrum_loop la tp mm n acc = Inr bins \<Longrightarrow> n \<le> 151 \<Longrightarrow>
   \<exists>f. (\<forall>k. n \<le> k \<and> k < 151 \<longrightarrow> bin_value la tp mm k = Inr (f k)) \<and> bins = acc @ map f [n..<151]"
proof (induction la tp mm n acc arbitrary: bins rule: spectrum_loop.induct)
  case (1 la tp mm n acc)
  show ?case
  proof (cases "n < 151")
    case True
    from "1.prems"(1) True obtain v where v: "bin_value la tp mm n = Inr v"
      and r: "spectrum_loop la tp mm (n + 1) (acc @ [v]) = Inr bins"
      by (subst (asm) spectrum_loop.simps) (auto split: sum.splits)
    from "1.IH" [OF True v r] True obtain f where
      f: "\<forall>k. n + 1 \<le> k \<and> k < 151 \<longrightarrow> bin_value la tp mm k = Inr (f k)"
      and bins: "bins = (acc @ [v]) @ map f [n + 1..<151]" by auto
    let ?g = "f(n := v)"
    have "\<forall>k. n \<le> k \<and> k < 151 \<longrightarrow> bin_value la tp mm k = Inr (?g k)"
      using f v by (auto simp: le_Suc_eq)
    moreover have "bins = acc @ map ?g [n..<151]"
      using bins True by (simp add: upt_conv_Cons)
    ultimately show ?thesis by blast
  next
    case False
    then show ?thesis using "1.prems" by (subst (asm) spectrum_loop.simps) auto
  qed
qed

text \<open>The bin loop returns a sequence exactly when every bin has a value; the sequence holds them.\<close>

lemma spectrum_loop_iff:
  "spectrum_loop la tp mm 0 [] = Inr bins \<longleftrightarrow>
     length bins = 151 \<and> (\<forall>k < 151. bin_value la tp mm k = Inr (bins ! k))"
proof
  assume "spectrum_loop la tp mm 0 [] = Inr bins"
  from spectrum_loop_Inr_D [OF this] obtain f where
    f: "\<forall>k. k < 151 \<longrightarrow> bin_value la tp mm k = Inr (f k)" and bins: "bins = map f [0..<151]"
    by auto
  show "length bins = 151 \<and> (\<forall>k < 151. bin_value la tp mm k = Inr (bins ! k))"
    using f unfolding bins by simp
next
  assume a: "length bins = 151 \<and> (\<forall>k < 151. bin_value la tp mm k = Inr (bins ! k))"
  then have "spectrum_loop la tp mm 0 [] = Inr ([] @ map (\<lambda>k. bins ! k) [0..<151])"
    by (intro spectrum_loop_Inr) auto
  moreover have "map (\<lambda>k. bins ! k) [0..<151] = bins"
    using a by (metis map_nth)
  ultimately show "spectrum_loop la tp mm 0 [] = Inr bins" by simp
qed

text \<open>The bin loop fails only where a queried bin's lookup fails.\<close>

lemma bin_value_not_queried: "n < 151 \<Longrightarrow> \<not> queried tp n \<Longrightarrow> bin_value la tp mm n = Inr 0"
  by (auto simp: bin_value_def queried_def)

lemma bin_value_queried:
  "queried tp n \<Longrightarrow> la (real n / 1000) = Inr mu \<Longrightarrow>
   bin_value la tp mm n = Inr (polynomial tp n * exp (- mu * mm / 10))"
  by (simp add: bin_value_def queried_def poly_loop_polynomial)

lemma bin_value_queried_Inl:
  "queried tp n \<Longrightarrow> la (real n / 1000) = Inl e \<Longrightarrow> bin_value la tp mm n = Inl e"
  by (simp add: bin_value_def queried_def)

text \<open>The whole function in terms of the bin sequence.\<close>

lemma Tasmip_bins:
  assumes "nistpad folder material = Inr la" and "spectrum_loop la tp mm 0 [] = Inr bins"
  shows "Tasmip nistpad tp mm material folder = Inr (map (\<lambda>x. ddiv x (trapezoid bins)) bins)"
proof -
  have "length bins = 151" using assms(2) by (simp add: spectrum_loop_iff)
  then have "divide_loop bins (trapezoid bins) 0 [] = map (\<lambda>x. ddiv x (trapezoid bins)) bins"
    by (simp add: divide_loop_map)
  then show ?thesis
    using assms by (simp add: Tasmip_def trapezoid_loop_trapezoid)
qed


subsection \<open>More on the bin sequence\<close>

lemma trapezoid_sum:
  "trapezoid bins = (\<Sum>n = 0..<151. bins ! n) - (bins ! 0 + bins ! 150) / 2"
proof -
  have a: "(\<Sum>n = 0..<151. bins ! n) = (\<Sum>n = 0..<150. bins ! n) + bins ! 150"
    by (simp add: eval_nat_numeral)
  have "(\<Sum>n = 0..<151. bins ! n) = bins ! 0 + (\<Sum>n = 0..<150. bins ! Suc n)"
    using sum.atLeast0_lessThan_Suc_shift [of "\<lambda>n. bins ! n" 150] by (simp add: eval_nat_numeral)
  then have b: "(\<Sum>n = 0..<150. bins ! (n + 1)) = (\<Sum>n = 0..<151. bins ! n) - bins ! 0"
    by simp
  have "trapezoid bins = ((\<Sum>n = 0..<150. bins ! n) + (\<Sum>n = 0..<150. bins ! (n + 1))) / 2"
    by (simp add: trapezoid_def sum.distrib sum_divide_distrib add_divide_distrib)
  then show ?thesis using a b by (simp add: field_simps)
qed

lemma bins_ends:
  assumes "spectrum_loop la tp mm 0 [] = Inr bins"
  shows "bins ! 0 = 0" and "bins ! 150 = 0"
proof -
  have "\<not> queried tp 0" "\<not> queried tp 150"
    by (simp_all add: queried_def terms_low terms_high)
  then have "bin_value la tp mm 0 = Inr 0" "bin_value la tp mm 150 = Inr 0"
    by (simp_all add: bin_value_not_queried)
  moreover have "bin_value la tp mm 0 = Inr (bins ! 0)" "bin_value la tp mm 150 = Inr (bins ! 150)"
    using assms by (simp_all add: spectrum_loop_iff)
  ultimately show "bins ! 0 = 0" and "bins ! 150 = 0" by simp_all
qed

lemma bins_not_queried:
  assumes "spectrum_loop la tp mm 0 [] = Inr bins" and "n < 151" and "\<not> queried tp n"
  shows "bins ! n = 0"
proof -
  have "bin_value la tp mm n = Inr (bins ! n)" using assms by (simp add: spectrum_loop_iff)
  then show ?thesis using assms by (simp add: bin_value_not_queried)
qed

lemma Tasmip_nth:
  assumes "nistpad folder material = Inr la" and "spectrum_loop la tp mm 0 [] = Inr bins"
    and "n < 151"
  shows "\<exists>out. Tasmip nistpad tp mm material folder = Inr out \<and> length out = 151 \<and>
           out ! n = ddiv (bins ! n) (trapezoid bins)"
proof -
  have "length bins = 151" using assms(2) by (simp add: spectrum_loop_iff)
  then show ?thesis
    using Tasmip_bins [of nistpad folder material la tp mm bins] assms by simp
qed

subsection \<open>What the result depends on\<close>

lemma spectrum_loop_cong:
  "\<forall>k < 151. bin_value la tp mm k = bin_value la' tp' mm' k \<Longrightarrow>
   spectrum_loop la tp mm n acc = spectrum_loop la' tp' mm' n acc"
proof (induction la tp mm n acc rule: spectrum_loop.induct)
  case (1 la tp mm n acc)
  show ?case
  proof (cases "n < 151")
    case True
    then have b: "bin_value la tp mm n = bin_value la' tp' mm' n" using "1.prems" by simp
    show ?thesis
    proof (cases "bin_value la tp mm n")
      case (Inl e)
      then show ?thesis
        using True b by (simp add: spectrum_loop.simps [of la tp mm n] spectrum_loop.simps [of la' tp' mm' n])
    next
      case (Inr v)
      then show ?thesis
        using True b "1.IH" [OF True Inr "1.prems"]
        by (simp add: spectrum_loop.simps [of la tp mm n] spectrum_loop.simps [of la' tp' mm' n])
    qed
  next
    case False
    then show ?thesis
      by (simp add: spectrum_loop.simps [of la tp mm n] spectrum_loop.simps [of la' tp' mm' n])
  qed
qed

lemma Tasmip_cong:
  assumes "nistpad folder material = Inr la" and "nistpad' folder material = Inr la'"
    and "\<forall>k < 151. bin_value la tp mm k = bin_value la' tp mm k"
  shows "Tasmip nistpad tp mm material folder = Tasmip nistpad' tp mm material folder"
  using assms(1,2) spectrum_loop_cong [OF assms(3), of 0 "[]"] by (simp add: Tasmip_def)

lemma bin_value_unfiltered:
  "queried tp n \<Longrightarrow> la (real n / 1000) = Inr mu \<Longrightarrow> bin_value la tp 0 n = Inr (polynomial tp n)"
  using bin_value_queried [of tp n la mu 0] by simp

lemma spectrum_loop_total:
  assumes "\<forall>n. queried tp n \<longrightarrow> (\<exists>mu. la (real n / 1000) = Inr mu)"
  shows "\<exists>bins. spectrum_loop la tp mm 0 [] = Inr bins"
proof -
  have "\<exists>v. bin_value la tp mm k = Inr v" if "k < 151" for k
  proof (cases "queried tp k")
    case True
    then obtain mu where "la (real k / 1000) = Inr mu" using assms by blast
    then show ?thesis using True bin_value_queried [of tp k la mu mm] by blast
  next
    case False
    then show ?thesis using that by (simp add: bin_value_not_queried)
  qed
  then obtain f where f: "\<forall>k < 151. bin_value la tp mm k = Inr (f k)" by metis
  have "spectrum_loop la tp mm 0 [] = Inr ([] @ map f [0..<151])"
    using f by (intro spectrum_loop_Inr) auto
  then show ?thesis by blast
qed

lemma Tasmip_length:
  assumes "Tasmip nistpad tp mm material folder = Inr out"
  shows "length out = 151"
proof -
  obtain la where la: "nistpad folder material = Inr la"
    using assms by (cases "nistpad folder material") (simp_all add: Tasmip_def)
  obtain bins where bins: "spectrum_loop la tp mm 0 [] = Inr bins"
    using assms la by (cases "spectrum_loop la tp mm 0 []") (simp_all add: Tasmip_def)
  have "length bins = 151" using bins by (simp add: spectrum_loop_iff)
  then show ?thesis
    using assms Tasmip_bins [where nistpad = nistpad and folder = folder and material = material,
        OF la bins] by auto
qed

subsection \<open>Concrete runs\<close>

lemma terms_10: "num_polynomial_terms ! 10 = 3"
  by (simp add: num_polynomial_terms_def)

lemma queried_11: "queried 11 n \<longleftrightarrow> n = 10"
proof
  assume q: "queried 11 n"
  then have "n < 11" by (simp add: queried_def)
  moreover have "\<not> n < 10" using q terms_low by (auto simp: queried_def)
  ultimately show "n = 10" by simp
qed (simp add: queried_def terms_10)

lemma not_queried_le_10: "tp \<le> 10 \<Longrightarrow> \<not> queried tp n"
proof
  assume tp: "tp \<le> 10" and q: "queried tp n"
  then have "n < 10" by (simp add: queried_def)
  then show False using q terms_low by (auto simp: queried_def)
qed

lemma spectrum_loop_11:
  assumes "la (real 10 / 1000) = Inr mu"
  shows "spectrum_loop la 11 mm 0 [] =
           Inr ((replicate 151 0)[10 := polynomial 11 10 * exp (- mu * mm / 10)])"
proof -
  let ?v = "polynomial 11 10 * exp (- mu * mm / 10)"
  have "bin_value la 11 mm k = Inr ((replicate 151 0)[10 := ?v] ! k)" if "k < 151" for k
  proof (cases "k = 10")
    case True
    then show ?thesis
      using bin_value_queried [of 11 10 la mu mm] assms by (simp add: queried_11)
  next
    case False
    then show ?thesis using that by (simp add: bin_value_not_queried queried_11)
  qed
  then show ?thesis by (simp add: spectrum_loop_iff)
qed

lemma spectrum_loop_le_10:
  assumes "tp \<le> 10"
  shows "spectrum_loop la tp mm 0 [] = Inr (replicate 151 0)"
  using assms by (simp add: spectrum_loop_iff bin_value_not_queried not_queried_le_10)


lemma trapezoid_zero: "trapezoid (replicate 151 0) = 0"
  by (simp add: trapezoid_def)

lemma c40: "polynomial_coefficients ! 40 = - 2.47098"
  unfolding polynomial_coefficients_def
  by (simp only: eval_nat_numeral BitM.simps nth_Cons_Suc nth_Cons_0)

lemma c41: "polynomial_coefficients ! 41 = 0.0752249"
  unfolding polynomial_coefficients_def
  by (simp only: eval_nat_numeral BitM.simps nth_Cons_Suc nth_Cons_0)

lemma c42: "polynomial_coefficients ! 42 = 0.00016013"
  unfolding polynomial_coefficients_def
  by (simp only: eval_nat_numeral BitM.simps nth_Cons_Suc nth_Cons_0)

lemma sum_upto_2: "(\<Sum>t = 0..<2. f t) = f 0 + (f (1::nat) :: real)"
  by (simp add: eval_nat_numeral)

lemma sum_upto_3: "(\<Sum>t = 0..<3. f t) = f 0 + f 1 + (f (2::nat) :: real)"
  by (simp add: eval_nat_numeral)

lemma sum_upto_4: "(\<Sum>t = 0..<4. f t) = f 0 + f 1 + f 2 + (f (3::nat) :: real)"
  by (simp add: eval_nat_numeral)

lemma polynomial_10:
  "polynomial tp 10 = - 2.47098 + 0.0752249 * of_int tp + 0.00016013 * of_int tp ^ 2"
  by (simp add: polynomial_def terms_10 sum_upto_3 c40 c41 c42)


lemma Tasmip_le_10:
  assumes "nistpad folder material = Inr la" and "tp \<le> 10"
  shows "Tasmip nistpad tp mm material folder = Inr (replicate 151 NaN)"
  using Tasmip_bins [where nistpad = nistpad and folder = folder and material = material,
      OF assms(1) spectrum_loop_le_10 [OF assms(2)], of mm]
  by (simp add: trapezoid_zero ddiv_def)

lemma terms_11_13: "num_polynomial_terms ! 11 = 4" "num_polynomial_terms ! 12 = 4"
  "num_polynomial_terms ! 13 = 4"
  by (simp_all add: num_polynomial_terms_def)

lemma coefficients_11:
  "polynomial_coefficients ! 44 = - 54.6852" "polynomial_coefficients ! 45 = 2.82597"
  "polynomial_coefficients ! 46 = - 0.0370259" "polynomial_coefficients ! 47 = 0.000168545"
  unfolding polynomial_coefficients_def
  by (simp_all only: eval_nat_numeral BitM.simps nth_Cons_Suc nth_Cons_0)

lemma coefficients_12:
  "polynomial_coefficients ! 48 = - 114.966" "polynomial_coefficients ! 49 = 7.18167"
  "polynomial_coefficients ! 50 = - 0.104151" "polynomial_coefficients ! 51 = 0.000524694"
  unfolding polynomial_coefficients_def
  by (simp_all only: eval_nat_numeral BitM.simps nth_Cons_Suc nth_Cons_0)

lemma coefficients_13:
  "polynomial_coefficients ! 52 = - 20.2312" "polynomial_coefficients ! 53 = 7.52303"
  "polynomial_coefficients ! 54 = - 0.0972592" "polynomial_coefficients ! 55 = 0.000526235"
  unfolding polynomial_coefficients_def
  by (simp_all only: eval_nat_numeral BitM.simps nth_Cons_Suc nth_Cons_0)

lemma polynomial_11:
  "polynomial tp 11 = - 54.6852 + 2.82597 * of_int tp - 0.0370259 * of_int tp ^ 2
     + 0.000168545 * of_int tp ^ 3"
  by (simp add: polynomial_def terms_11_13 sum_upto_4 coefficients_11)

lemma polynomial_12:
  "polynomial tp 12 = - 114.966 + 7.18167 * of_int tp - 0.104151 * of_int tp ^ 2
     + 0.000524694 * of_int tp ^ 3"
  by (simp add: polynomial_def terms_11_13 sum_upto_4 coefficients_12)

lemma polynomial_13:
  "polynomial tp 13 = - 20.2312 + 7.52303 * of_int tp - 0.0972592 * of_int tp ^ 2
     + 0.000526235 * of_int tp ^ 3"
  by (simp add: polynomial_def terms_11_13 sum_upto_4 coefficients_13)

lemma polynomial_14:
  "polynomial 14 10 = - 1.38644592" "polynomial 14 11 = - 21.91620892"
  "polynomial 14 12 = - 33.396455664" "polynomial 14 13 = 67.47240564"
  by (simp_all add: polynomial_10 polynomial_11 polynomial_12 polynomial_13)

lemma queried_ge_10: "queried tp n \<Longrightarrow> 10 \<le> n"
proof (rule ccontr)
  assume q: "queried tp n" and "\<not> 10 \<le> n"
  then have "num_polynomial_terms ! n = 0" by (simp add: terms_low)
  then show False using q by (simp add: queried_def)
qed

lemma queried_small:
  "queried tp n \<longleftrightarrow> 10 \<le> n \<and> int n < tp" if "tp \<le> 14"
proof
  assume q: "queried tp n"
  then show "10 \<le> n \<and> int n < tp" using queried_ge_10 by (simp add: queried_def)
next
  assume a: "10 \<le> n \<and> int n < tp"
  then have "n = 10 \<or> n = 11 \<or> n = 12 \<or> n = 13" using that by auto
  then show "queried tp n" using a by (auto simp: queried_def terms_10 terms_11_13)
qed

lemma polynomial_neg:
  assumes "11 \<le> tp" "tp \<le> 13" "queried tp n"
  shows "polynomial tp n < 0"
proof -
  have "10 \<le> n \<and> int n < tp" using assms by (simp add: queried_small)
  moreover have "tp = 11 \<or> tp = 12 \<or> tp = 13" using assms by auto
  ultimately consider "tp = 11" "n = 10" | "tp = 12" "n = 10" | "tp = 12" "n = 11"
    | "tp = 13" "n = 10" | "tp = 13" "n = 11" | "tp = 13" "n = 12" by fastforce
  then show ?thesis
    by cases (simp_all add: polynomial_10 polynomial_11 polynomial_12)
qed

subsection \<open>The sign of the polynomials\<close>

lemma bernstein_identity:
  "(U - L) ^ 3 * cubic a b c d x =
     cubic a b c d L * (U - x) ^ 3
     + (3 * cubic a b c d L + (U - L) * cubic' b c d L) * (x - L) * (U - x) ^ 2
     + (3 * cubic a b c d U - (U - L) * cubic' b c d U) * (x - L) ^ 2 * (U - x)
     + cubic a b c d U * (x - L) ^ 3"
  unfolding cubic_def cubic'_def by algebra

lemma bernstein_pos:
  assumes ok: "bernstein_ok a b c d L U" and x: "L \<le> x" "x \<le> U"
  shows "0 < cubic a b c d x"
proof -
  let ?y = "x - L" and ?z = "U - x"
  have y: "0 \<le> ?y" and z: "0 \<le> ?z" using x by simp_all
  have w: "0 < U - L" using ok by (simp add: bernstein_ok_def)
  have b0: "0 < cubic a b c d L" and b3: "0 < cubic a b c d U"
    and b1: "0 \<le> 3 * cubic a b c d L + (U - L) * cubic' b c d L"
    and b2: "0 \<le> 3 * cubic a b c d U - (U - L) * cubic' b c d U"
    using ok by (simp_all add: bernstein_ok_def)
  have ends: "0 < cubic a b c d L * ?z ^ 3 + cubic a b c d U * ?y ^ 3"
  proof (cases "0 < ?y")
    case True
    then have "0 < cubic a b c d U * ?y ^ 3" using b3 by simp
    moreover have "0 \<le> cubic a b c d L * ?z ^ 3" using b0 z by simp
    ultimately show ?thesis by linarith
  next
    case False
    then have "0 < ?z" using w y by linarith
    then have "0 < cubic a b c d L * ?z ^ 3" using b0 by simp
    moreover have "0 \<le> cubic a b c d U * ?y ^ 3" using b3 y by simp
    ultimately show ?thesis by linarith
  qed
  have m1: "0 \<le> (3 * cubic a b c d L + (U - L) * cubic' b c d L) * ?y * ?z ^ 2"
    using b1 y z by simp
  have m2: "0 \<le> (3 * cubic a b c d U - (U - L) * cubic' b c d U) * ?y ^ 2 * ?z"
    using b2 y z by simp
  have "0 < (U - L) ^ 3 * cubic a b c d x"
    unfolding bernstein_identity using ends m1 m2 by linarith
  then show ?thesis using w by (simp add: zero_less_mult_iff)
qed

lemma pieces_pos:
  "pieces_ok a b c d bs \<Longrightarrow> 2 \<le> length bs \<Longrightarrow> hd bs \<le> x \<Longrightarrow> x \<le> last bs \<Longrightarrow>
   0 < cubic a b c d x"
proof (induction a b c d bs rule: pieces_ok.induct)
  case (1 a b c d L U bs)
  show ?case
  proof (cases "x \<le> U")
    case True
    then show ?thesis using "1.prems" bernstein_pos [of a b c d L U x] by simp
  next
    case False
    then have "bs \<noteq> []" using "1.prems" by auto
    then have "2 \<le> length (U # bs)" by (cases bs) simp_all
    then show ?thesis using False "1.prems" "1.IH" by simp
  qed
qed simp_all

lemma table_ok_row:
  "table_ok n ks cs \<Longrightarrow> i < length ks \<Longrightarrow>
   row_ok (n + real i) (ks ! i) (cs ! (4 * i)) (cs ! (4 * i + 1)) (cs ! (4 * i + 2)) (cs ! (4 * i + 3))"
proof (induction n ks cs arbitrary: i rule: table_ok.induct)
  case (1 n k ks a b c d cs)
  show ?case
  proof (cases i)
    case 0
    then show ?thesis using "1.prems" by simp
  next
    case (Suc j)
    have e: "n + 1 + real j = n + real i" using Suc by simp
    have "row_ok (n + 1 + real j) (ks ! j) (cs ! (4 * j)) (cs ! (4 * j + 1))
            (cs ! (4 * j + 2)) (cs ! (4 * j + 3))"
      using "1.prems" "1.IH" [of j] Suc by simp
    then show ?thesis unfolding e using Suc by (simp add: add.commute)
  qed
qed simp_all

lemma the_table_ok: "table_ok 0 num_polynomial_terms polynomial_coefficients"
  unfolding num_polynomial_terms_def polynomial_coefficients_def
  by (simp add: row_ok_def breaks_def breaks_low_def bernstein_ok_def cubic_def cubic'_def)


lemma polynomial_cubic:
  assumes n: "n < 151" and k: "num_polynomial_terms ! n \<noteq> 0"
  shows "polynomial tp n =
           cubic (polynomial_coefficients ! (4 * n))
             (if 1 < num_polynomial_terms ! n then polynomial_coefficients ! (4 * n + 1) else 0)
             (if 2 < num_polynomial_terms ! n then polynomial_coefficients ! (4 * n + 2) else 0)
             (if 3 < num_polynomial_terms ! n then polynomial_coefficients ! (4 * n + 3) else 0)
             (of_int tp)"
proof -
  have "num_polynomial_terms ! n \<le> 4" using n by (rule num_polynomial_terms_le_4)
  then consider "num_polynomial_terms ! n = 1" | "num_polynomial_terms ! n = 2"
    | "num_polynomial_terms ! n = 3" | "num_polynomial_terms ! n = 4"
    using k by linarith
  then show ?thesis
  proof cases
    case 1
    then show ?thesis by (simp add: polynomial_def cubic_def)
  next
    case 2
    then show ?thesis by (simp add: polynomial_def cubic_def sum_upto_2)
  next
    case 3
    then show ?thesis by (simp add: polynomial_def cubic_def sum_upto_3)
  next
    case 4
    then show ?thesis by (simp add: polynomial_def cubic_def sum_upto_4)
  qed
qed

lemma polynomial_pos:
  assumes tp: "31 \<le> tp" "tp \<le> 150" and q: "queried tp n"
  shows "0 < polynomial tp n"
proof -
  have n: "n < 151" and k: "num_polynomial_terms ! n \<noteq> 0" and lt: "int n < tp"
    using q by (simp_all add: queried_def)
  let ?a = "polynomial_coefficients ! (4 * n)"
  let ?b = "if 1 < num_polynomial_terms ! n then polynomial_coefficients ! (4 * n + 1) else 0"
  let ?c = "if 2 < num_polynomial_terms ! n then polynomial_coefficients ! (4 * n + 2) else 0"
  let ?d = "if 3 < num_polynomial_terms ! n then polynomial_coefficients ! (4 * n + 3) else 0"
  have "row_ok (0 + real n) (num_polynomial_terms ! n) ?a (polynomial_coefficients ! (4 * n + 1))
          (polynomial_coefficients ! (4 * n + 2)) (polynomial_coefficients ! (4 * n + 3))"
    using the_table_ok n by (intro table_ok_row) (simp_all add: length_num_polynomial_terms)
  then have p: "pieces_ok ?a ?b ?c ?d (breaks (real n))"
    using k unfolding row_ok_def by (simp cong: if_cong split del: if_split)
  have x: "real_of_int tp \<le> 150" "31 \<le> real_of_int tp" "real n + 1 \<le> real_of_int tp"
    using tp lt by simp_all
  have l: "2 \<le> length (breaks (real n))" and h: "hd (breaks (real n)) \<le> real_of_int tp"
    and e: "real_of_int tp \<le> last (breaks (real n))"
    using x by (simp_all add: breaks_def)
  have "0 < cubic ?a ?b ?c ?d (real_of_int tp)"
    by (rule pieces_pos [OF p l h e])
  then show ?thesis by (simp only: polynomial_cubic [OF n k])
qed

subsection \<open>The bins in closed form\<close>

lemma spectrum_loop_map:
  assumes "\<forall>n. queried tp n \<longrightarrow> la (real n / 1000) = Inr (mu n)"
  shows "spectrum_loop la tp mm 0 [] =
           Inr (map (\<lambda>n. if queried tp n then polynomial tp n * exp (- mu n * mm / 10) else 0)
                  [0..<151])"
proof -
  let ?f = "\<lambda>n. if queried tp n then polynomial tp n * exp (- mu n * mm / 10) else 0"
  have "bin_value la tp mm k = Inr (?f k)" if "k < 151" for k
  proof (cases "queried tp k")
    case True
    then have "la (real k / 1000) = Inr (mu k)" using assms by blast
    then show ?thesis using True bin_value_queried [of tp k la "mu k" mm] by simp
  next
    case False
    then show ?thesis using that by (simp add: bin_value_not_queried)
  qed
  then have "spectrum_loop la tp mm 0 [] = Inr ([] @ map ?f [0..<151])"
    by (intro spectrum_loop_Inr) auto
  then show ?thesis by simp
qed

lemma not_queried_ends: "\<not> queried tp 0" "\<not> queried tp 150"
  by (simp_all add: queried_def terms_low terms_high)

lemma trapezoid_map:
  assumes "f 0 = 0" and "f 150 = 0"
  shows "trapezoid (map f [0..<151]) = (\<Sum>n = 0..<151. f n)"
proof -
  have "(\<Sum>n = 0..<151. map f [0..<151] ! n) = (\<Sum>n = 0..<151. f n)"
    by (intro sum.cong) simp_all
  moreover have "map f [0..<151] ! 0 = f 0" "map f [0..<151] ! 150 = f 150"
    by simp_all
  ultimately show ?thesis using assms by (simp add: trapezoid_sum)
qed

lemma Tasmip_map:
  assumes "nistpad folder material = Inr la"
    and "\<forall>n. queried tp n \<longrightarrow> la (real n / 1000) = Inr (mu n)"
  shows "Tasmip nistpad tp mm material folder =
           Inr (map (\<lambda>n. ddiv (if queried tp n then polynomial tp n * exp (- mu n * mm / 10) else 0)
                           (\<Sum>n = 0..<151. if queried tp n
                               then polynomial tp n * exp (- mu n * mm / 10) else 0))
                  [0..<151])"
proof -
  let ?f = "\<lambda>n. if queried tp n then polynomial tp n * exp (- mu n * mm / 10) else 0"
  have t: "trapezoid (map ?f [0..<151]) = (\<Sum>n = 0..<151. ?f n)"
    by (rule trapezoid_map) (simp_all add: not_queried_ends)
  show ?thesis
    using Tasmip_bins [where nistpad = nistpad and folder = folder and material = material,
        OF assms(1) spectrum_loop_map [OF assms(2)], of mm]
    unfolding t by (simp add: comp_def)
qed

lemma ddiv_nonzero: "s \<noteq> 0 \<Longrightarrow> ddiv x s = Finite (x / s)"
  by (simp add: ddiv_def)

lemma queried_10: "10 < tp \<Longrightarrow> queried tp 10"
  by (simp add: queried_def terms_10)

lemma sum_queried_14:
  "(\<Sum>n = 0..<151. if queried 14 n then g n else (0::real)) = g 10 + g 11 + g 12 + g 13"
proof -
  have "(\<Sum>n = 0..<151. if queried 14 n then g n else 0) = (\<Sum>n \<in> {10, 11, 12, 13}. g n)"
    by (rule sum.mono_neutral_cong_right) (auto simp: queried_small)
  then show ?thesis by simp
qed

subsection \<open>Tube potentials 14 to 30\<close>

lemma polynomial_pos_low:
  assumes tp: "14 \<le> tp" "tp \<le> 30" and q: "queried tp n" and n13: "13 \<le> n"
  shows "0 < polynomial tp n"
proof -
  have n: "n < 151" and k: "num_polynomial_terms ! n \<noteq> 0" and lt: "int n < tp"
    using q by (simp_all add: queried_def)
  let ?a = "polynomial_coefficients ! (4 * n)"
  let ?b = "if 1 < num_polynomial_terms ! n then polynomial_coefficients ! (4 * n + 1) else 0"
  let ?c = "if 2 < num_polynomial_terms ! n then polynomial_coefficients ! (4 * n + 2) else 0"
  let ?d = "if 3 < num_polynomial_terms ! n then polynomial_coefficients ! (4 * n + 3) else 0"
  have "row_ok (0 + real n) (num_polynomial_terms ! n) ?a (polynomial_coefficients ! (4 * n + 1))
          (polynomial_coefficients ! (4 * n + 2)) (polynomial_coefficients ! (4 * n + 3))"
    using the_table_ok n by (intro table_ok_row) (simp_all add: length_num_polynomial_terms)
  then have p: "pieces_ok ?a ?b ?c ?d (breaks_low (real n))"
    using k unfolding row_ok_def by (simp cong: if_cong split del: if_split)
  have x: "real_of_int tp \<le> 31" "real n + 1 \<le> real_of_int tp" "13 \<le> real n" "real n \<le> 29"
    using tp lt n13 by simp_all
  have l: "2 \<le> length (breaks_low (real n))" and h: "hd (breaks_low (real n)) \<le> real_of_int tp"
    and e: "real_of_int tp \<le> last (breaks_low (real n))"
    using x by (simp_all add: breaks_low_def)
  have "0 < cubic ?a ?b ?c ?d (real_of_int tp)"
    by (rule pieces_pos [OF p l h e])
  then show ?thesis by (simp only: polynomial_cubic [OF n k])
qed

lemma polynomial_10_neg:
  assumes "14 \<le> tp" "tp \<le> 30"
  shows "polynomial tp 10 < 0"
proof -
  have "bernstein_ok 2.47098 (- 0.0752249) (- 0.00016013) 0 14 30"
    by (simp add: bernstein_ok_def cubic_def cubic'_def)
  then have "0 < cubic 2.47098 (- 0.0752249) (- 0.00016013) 0 (real_of_int tp)"
    using assms by (intro bernstein_pos [where L = 14 and U = 30]) simp_all
  then show ?thesis by (simp add: polynomial_10 cubic_def)
qed

lemma polynomial_10_13_pos:
  assumes "14 \<le> tp" "tp \<le> 30"
  shows "0 < polynomial tp 10 + polynomial tp 11 + polynomial tp 12 + polynomial tp 13"
proof -
  have "bernstein_ok (- 192.35338) 17.6058949 (- 0.23827597) 0.001219474 14 31"
    by (simp add: bernstein_ok_def cubic_def cubic'_def)
  then have "0 < cubic (- 192.35338) 17.6058949 (- 0.23827597) 0.001219474 (real_of_int tp)"
    using assms by (intro bernstein_pos [where L = 14 and U = 31]) simp_all
  then show ?thesis
    by (simp add: polynomial_10 polynomial_11 polynomial_12 polynomial_13 cubic_def algebra_simps)
qed

lemma total_pos_low:
  assumes tp: "14 \<le> tp" "tp \<le> 30"
  shows "0 < (\<Sum>n = 0..<151. if queried tp n then polynomial tp n else 0)"
proof -
  let ?f = "\<lambda>n. if queried tp n then polynomial tp n else 0"
  let ?A = "{10, 11, 12, 13::nat}"
  have q: "queried tp 10" "queried tp 11" "queried tp 12" "queried tp 13"
    using tp by (simp_all add: queried_def terms_10 terms_11_13)
  have "(\<Sum>n = 0..<151. ?f n) = (\<Sum>n \<in> {0..<151} - ?A. ?f n) + (\<Sum>n \<in> ?A. ?f n)"
    by (rule sum.subset_diff) auto
  moreover have "(\<Sum>n \<in> ?A. ?f n) =
      polynomial tp 10 + polynomial tp 11 + polynomial tp 12 + polynomial tp 13"
    using q by simp
  moreover have "0 \<le> (\<Sum>n \<in> {0..<151} - ?A. ?f n)"
  proof (rule sum_nonneg)
    fix n assume n: "n \<in> {0..<151} - ?A"
    show "0 \<le> ?f n"
    proof (cases "queried tp n")
      case True
      then have "10 \<le> n" by (rule queried_ge_10)
      then have "13 \<le> n" using n by auto
      then show ?thesis using True polynomial_pos_low [OF tp True] by simp
    next
      case False
      then show ?thesis by simp
    qed
  qed
  ultimately show ?thesis using polynomial_10_13_pos [OF tp] by linarith
qed

subsection \<open>The energy-weighted mean of the result\<close>


lemma Tasmip_map_Finite:
  assumes "nistpad folder material = Inr la"
    and "\<forall>n. queried tp n \<longrightarrow> la (real n / 1000) = Inr (mu n)"
    and "(\<Sum>n = 0..<151. if queried tp n then polynomial tp n * exp (- mu n * mm / 10) else 0) \<noteq> 0"
  shows "Tasmip nistpad tp mm material folder =
           Inr (map Finite
             (map (\<lambda>n. (if queried tp n then polynomial tp n * exp (- mu n * mm / 10) else 0) /
                        (\<Sum>n = 0..<151. if queried tp n
                            then polynomial tp n * exp (- mu n * mm / 10) else 0))
                [0..<151]))"
  unfolding Tasmip_map [where nistpad = nistpad and folder = folder and material = material,
      OF assms(1,2)]
  using assms(3) by (simp add: ddiv_nonzero comp_def)







subsection \<open>Where the total is not 0\<close>

lemma total_nonzero:
  assumes tp: "11 \<le> tp" "tp \<le> 150" and c: "mm = 0 \<or> tp \<le> 13 \<or> 31 \<le> tp"
  shows "(\<Sum>n = 0..<151. if queried tp n then polynomial tp n * exp (- mu n * mm / 10) else 0) \<noteq> 0"
proof -
  let ?f = "\<lambda>n. if queried tp n then polynomial tp n * exp (- mu n * mm / 10) else 0"
  have q10: "queried tp 10" using tp by (intro queried_10) auto
  consider (low) "tp \<le> 13" | (high) "31 \<le> tp" | (mid) "14 \<le> tp" "tp \<le> 30" "mm = 0"
    using c by linarith
  then show ?thesis
  proof cases
    case low
    have neg: "?f n \<le> 0" for n
    proof (cases "queried tp n")
      case True
      then have "polynomial tp n < 0" using tp low by (intro polynomial_neg) auto
      then show ?thesis using True by (simp add: mult_le_0_iff less_imp_le)
    next
      case False
      then show ?thesis by simp
    qed
    have "polynomial tp 10 < 0" using tp low q10 by (intro polynomial_neg) auto
    then have "?f 10 < 0" using q10 by (simp add: mult_less_0_iff)
    then have "0 < (\<Sum>n = 0..<151. - ?f n)"
      using neg by (intro sum_pos2 [where i = 10]) auto
    then show ?thesis by (simp add: sum_negf)
  next
    case high
    have pos: "0 \<le> ?f n" for n
    proof (cases "queried tp n")
      case True
      then have "0 < polynomial tp n" using tp high by (intro polynomial_pos) auto
      then show ?thesis using True by (simp add: less_imp_le)
    next
      case False
      then show ?thesis by simp
    qed
    have "0 < polynomial tp 10" using tp high q10 by (intro polynomial_pos) auto
    then have "0 < ?f 10" using q10 by simp
    then have "0 < (\<Sum>n = 0..<151. ?f n)"
      using pos by (intro sum_pos2 [where i = 10]) auto
    then show ?thesis by simp
  next
    case mid
    have "(\<Sum>n = 0..<151. ?f n) = (\<Sum>n = 0..<151. if queried tp n then polynomial tp n else 0)"
      using mid(3) by (intro sum.cong refl) simp
    then show ?thesis using total_pos_low [OF mid(1,2)] by simp
  qed
qed



section \<open>The claims\<close>

text \<open>
  C1. For every energy bin \<open>n\<close> in 0..150 with nonzero degree and \<open>n < tube_potential\<close>,
  the bin value before normalisation is the polynomial of the row,
  \<open>\<Sum>t<degree. coefficient[n][t] * tube_potential^t\<close>, times
  \<open>exp (- mu * filtration_mm / 10)\<close>, where \<open>mu\<close> is what the provider returns
  at the energy \<open>n / 1000\<close> MeV.
\<close>

theorem bin_value_formula:
  assumes "spectrum_loop NistAl tube_potential mm_filtration 0 [] = Inr spectrum"
    and "n \<le> 150" and "num_polynomial_terms ! n \<noteq> 0" and "int n < tube_potential"
  shows "\<exists>mu. NistAl (real n / 1000) = Inr mu \<and>
           spectrum ! n =
             (\<Sum>t = 0..<num_polynomial_terms ! n.
                polynomial_coefficients ! (4 * n + t) * of_int tube_potential ^ t)
             * exp (- mu * mm_filtration / 10)"
proof -
  have q: "queried tube_potential n" using assms by (simp add: queried_def)
  have b: "bin_value NistAl tube_potential mm_filtration n = Inr (spectrum ! n)"
    using assms by (simp add: spectrum_loop_iff)
  show ?thesis
  proof (cases "NistAl (real n / 1000)")
    case (Inl e)
    then show ?thesis
      using b q bin_value_queried_Inl [of tube_potential n NistAl e mm_filtration] by simp
  next
    case (Inr mu)
    then show ?thesis
      using b q bin_value_queried [of tube_potential n NistAl mu mm_filtration]
      by (simp add: polynomial_def)
  qed
qed

theorem bin_value_formula_witness:
  "spectrum_loop example_NistPad 11 2 0 [] =
     Inr ((replicate 151 0)[10 := polynomial 11 10 * exp (- (1 - real 10 / 1000) * 2 / 10)]) \<and>
   (10::nat) \<le> 150 \<and> num_polynomial_terms ! 10 \<noteq> 0 \<and> int 10 < 11 \<and>
   (\<exists>mu. example_NistPad (real 10 / 1000) = Inr mu \<and>
      (replicate 151 0)[10 := polynomial 11 10 * exp (- (1 - real 10 / 1000) * 2 / 10)] ! 10 =
        (\<Sum>t = 0..<num_polynomial_terms ! 10.
           polynomial_coefficients ! (4 * 10 + t) * of_int 11 ^ t)
        * exp (- mu * 2 / 10))"
proof -
  have h1: "spectrum_loop example_NistPad 11 2 0 [] =
     Inr ((replicate 151 0)[10 := polynomial 11 10 * exp (- (1 - real 10 / 1000) * 2 / 10)])"
    by (rule spectrum_loop_11) (simp add: example_NistPad_def)
  have h2: "(10::nat) \<le> 150" by simp
  have h3: "num_polynomial_terms ! 10 \<noteq> 0" by (simp add: terms_10)
  have h4: "int 10 < 11" by simp
  from bin_value_formula [OF h1 h2 h3 h4] h1 h2 h3 h4 show ?thesis by blast
qed

text \<open>
  C3. For every energy bin \<open>n\<close> in 0..150: if the degree of the table for \<open>n\<close> is 0
  or \<open>n \<ge> tube_potential\<close>, bin \<open>n\<close> of the spectrum is 0; in particular, for all
  valid inputs, \<open>spectrum[n] = 0\<close> for every \<open>n \<ge> tube_potential\<close>.

  At tube potential 10 every bin is 0 before the normalisation, the total is 0, and entry 10
  of the returned spectrum is \<open>0.0 / 0.0\<close>, not-a-number.
\<close>

theorem zero_bins_counterexample:
  "(10::nat) \<le> 150 \<and> (10::int) \<le> int 10 \<and>
   entry (Tasmip example_nistpad 10 0 ''Al'' ''NIST'') 10 = Some NaN"
proof -
  have "example_nistpad ''NIST'' ''Al'' = Inr example_NistPad"
    by (simp add: example_nistpad_def)
  then have "Tasmip example_nistpad 10 0 ''Al'' ''NIST'' = Inr (replicate 151 NaN)"
    by (rule Tasmip_le_10) simp
  then show ?thesis by (simp add: entry_def)
qed

text \<open>
  C3 as amended. For every energy bin \<open>n\<close> in 0..150 whose degree is 0 or with
  \<open>n \<ge> tube_potential\<close>, the value of bin \<open>n\<close> before the normalisation is 0, for every
  input. The returned entry is this 0 divided by the total. For a tube potential up to 10 the
  total is 0 and every returned entry is not-a-number. The returned entry is 0 for a tube
  potential in 11..150 when the provider answers, with \<open>|mu * filtration_mm| \<le> 6000\<close> at
  every queried bin, and the filtration is 0 or the tube potential is in 11..13 or 31..150.

  With the bound the attenuation factor lies between \<open>exp (-600)\<close> and \<open>exp 600\<close>, so
  that no bin of the code's doubles underflows to 0 or overflows; in 11..13 and 31..150 all
  modelled bins have one sign, and at filtration 0 the bins are the polynomials of the table:
  the total is a nonzero number.
\<close>

theorem zero_bins:
  assumes "nistpad folder filter_material = Inr NistAl"
    and "n \<le> 150"
    and "num_polynomial_terms ! n = 0 \<or> tube_potential \<le> int n"
  shows "(\<forall>bins. spectrum_loop NistAl tube_potential mm_filtration 0 [] = Inr bins \<longrightarrow>
            bins ! n = 0) \<and>
         (tube_potential \<le> 10 \<longrightarrow>
            Tasmip nistpad tube_potential mm_filtration filter_material folder =
              Inr (replicate 151 NaN)) \<and>
         ((\<forall>k. queried tube_potential k \<longrightarrow>
              NistAl (real k / 1000) = Inr (mu k) \<and> \<bar>mu k * mm_filtration\<bar> \<le> 6000) \<and>
          11 \<le> tube_potential \<and> tube_potential \<le> 150 \<and>
          (mm_filtration = 0 \<or> tube_potential \<le> 13 \<or> 31 \<le> tube_potential) \<longrightarrow>
            (\<exists>out. Tasmip nistpad tube_potential mm_filtration filter_material folder = Inr out \<and>
                   out ! n = Finite 0))"
proof (intro conjI allI impI)
  have n: "n < 151" using assms(2) by simp
  have nq: "\<not> queried tube_potential n" using assms(3) by (auto simp: queried_def)
  show "bins ! n = 0"
    if "spectrum_loop NistAl tube_potential mm_filtration 0 [] = Inr bins" for bins
    using that n nq by (rule bins_not_queried)
  show "Tasmip nistpad tube_potential mm_filtration filter_material folder =
          Inr (replicate 151 NaN)" if "tube_potential \<le> 10"
    using assms(1) that by (rule Tasmip_le_10)
  show "\<exists>out. Tasmip nistpad tube_potential mm_filtration filter_material folder = Inr out \<and>
          out ! n = Finite 0"
    if c: "(\<forall>k. queried tube_potential k \<longrightarrow>
              NistAl (real k / 1000) = Inr (mu k) \<and> \<bar>mu k * mm_filtration\<bar> \<le> 6000) \<and>
          11 \<le> tube_potential \<and> tube_potential \<le> 150 \<and>
          (mm_filtration = 0 \<or> tube_potential \<le> 13 \<or> 31 \<le> tube_potential)"
  proof -
    let ?b = "\<lambda>k. if queried tube_potential k
                then polynomial tube_potential k * exp (- mu k * mm_filtration / 10) else 0"
    have a: "\<forall>k. queried tube_potential k \<longrightarrow> NistAl (real k / 1000) = Inr (mu k)"
      using c by blast
    have nz: "(\<Sum>k = 0..<151. ?b k) \<noteq> 0"
      using c by (intro total_nonzero) auto
    have "Tasmip nistpad tube_potential mm_filtration filter_material folder =
            Inr (map Finite (map (\<lambda>k. ?b k / (\<Sum>k = 0..<151. ?b k)) [0..<151]))"
      using assms(1) a nz by (rule Tasmip_map_Finite)
    moreover have "map Finite (map (\<lambda>k. ?b k / (\<Sum>k = 0..<151. ?b k)) [0..<151]) ! n = Finite 0"
      using n nq by simp
    ultimately show ?thesis by blast
  qed
qed

theorem zero_bins_witness:
  "example_nistpad ''NIST'' ''Al'' = Inr example_NistPad \<and>
   (\<exists>bins. spectrum_loop example_NistPad 80 2.5 0 [] = Inr bins \<and> bins ! 100 = 0) \<and>
   Tasmip example_nistpad 5 2.5 ''Al'' ''NIST'' = Inr (replicate 151 NaN) \<and>
   (\<exists>out. Tasmip example_nistpad 80 2.5 ''Al'' ''NIST'' = Inr out \<and> out ! 100 = Finite 0)"
proof -
  have h1: "example_nistpad ''NIST'' ''Al'' = Inr example_NistPad"
    by (simp add: example_nistpad_def)
  have h2: "(100::nat) \<le> 150" by simp
  have h3: "num_polynomial_terms ! 100 = 0 \<or> (80::int) \<le> int 100" by simp
  have h3': "num_polynomial_terms ! 100 = 0 \<or> (5::int) \<le> int 100" by simp
  have q: "\<forall>k. queried 80 k \<longrightarrow>
             example_NistPad (real k / 1000) = Inr (1 - real k / 1000) \<and>
             \<bar>(1 - real k / 1000) * 2.5\<bar> \<le> 6000"
  proof (intro allI impI)
    fix k assume "queried 80 k"
    then have "k < 151" by (simp add: queried_def)
    then show "example_NistPad (real k / 1000) = Inr (1 - real k / 1000) \<and>
               \<bar>(1 - real k / 1000) * 2.5\<bar> \<le> 6000"
      by (simp add: example_NistPad_def abs_le_iff)
  qed
  obtain bins where b: "spectrum_loop example_NistPad 80 2.5 0 [] = Inr bins"
    using spectrum_loop_total [of 80 example_NistPad "2.5"] by (auto simp: example_NistPad_def)
  note w80 = zero_bins [where nistpad = example_nistpad and folder = "''NIST''"
      and filter_material = "''Al''" and mm_filtration = "2.5"
      and mu = "\<lambda>k. 1 - real k / 1000", OF h1 h2 h3]
  note w5 = zero_bins [where nistpad = example_nistpad and folder = "''NIST''"
      and filter_material = "''Al''" and mm_filtration = "2.5"
      and mu = "\<lambda>k. 1 - real k / 1000", OF h1 h2 h3']
  have "bins ! 100 = 0" using w80 b by blast
  moreover have "Tasmip example_nistpad 5 2.5 ''Al'' ''NIST'' = Inr (replicate 151 NaN)"
    using w5 by simp
  moreover have "\<exists>out. Tasmip example_nistpad 80 2.5 ''Al'' ''NIST'' = Inr out \<and>
                   out ! 100 = Finite 0"
    using w80 q by simp
  ultimately show ?thesis using h1 b by blast
qed

text \<open>
  C4. If the trapezoidal integral of the bins before normalisation is 0 (as for
  \<open>tube_potential = 10\<close>), the function raises an explicit error before dividing and never
  returns a spectrum with not-a-number or infinite entries.

  The function has no such check: at tube potential 10 it returns 151 times not-a-number.
\<close>

theorem zero_total_counterexample:
  "spectrum_loop example_NistPad 10 0 0 [] = Inr (replicate 151 0) \<and>
   trapezoid (replicate 151 0) = 0 \<and>
   Tasmip example_nistpad 10 0 ''Al'' ''NIST'' = Inr (replicate 151 NaN)"
  by (simp add: spectrum_loop_le_10 trapezoid_zero Tasmip_le_10 example_nistpad_def)

text \<open>
  C4 as amended. If the trapezoidal integral of the bins before normalisation is 0, the
  function raises nothing: it divides by the zero total and returns 151 entries, none of them
  finite: not-a-number where the bin is 0, plus or minus infinity where it is not.
\<close>

theorem zero_total_not_finite:
  assumes "nistpad folder filter_material = Inr NistAl"
    and "spectrum_loop NistAl tube_potential mm_filtration 0 [] = Inr bins"
    and "trapezoid bins = 0"
  shows "\<exists>out. Tasmip nistpad tube_potential mm_filtration filter_material folder = Inr out \<and>
           length out = 151 \<and>
           (\<forall>n < 151. \<not> is_finite (out ! n) \<and>
              out ! n = (if bins ! n = 0 then NaN else if 0 < bins ! n then PInf else NInf))"
proof -
  let ?out = "map (\<lambda>x. ddiv x (trapezoid bins)) bins"
  have T: "Tasmip nistpad tube_potential mm_filtration filter_material folder = Inr ?out"
    using assms(1,2) by (rule Tasmip_bins)
  have len: "length bins = 151" using assms(2) by (simp add: spectrum_loop_iff)
  have "\<forall>n < 151. \<not> is_finite (?out ! n) \<and>
          ?out ! n = (if bins ! n = 0 then NaN else if 0 < bins ! n then PInf else NInf)"
    using len assms(3) by (simp add: ddiv_def)
  then show ?thesis using T len by simp
qed

theorem zero_total_not_finite_witness:
  "example_nistpad ''NIST'' ''Al'' = Inr example_NistPad \<and>
   spectrum_loop example_NistPad 5 2.5 0 [] = Inr (replicate 151 0) \<and>
   trapezoid (replicate 151 0) = 0 \<and>
   (\<exists>out. Tasmip example_nistpad 5 2.5 ''Al'' ''NIST'' = Inr out \<and> length out = 151 \<and>
      (\<forall>n < 151. \<not> is_finite (out ! n) \<and>
         out ! n = (if replicate 151 (0::real) ! n = 0 then NaN
                    else if 0 < replicate 151 (0::real) ! n then PInf else NInf)))"
proof -
  have h1: "example_nistpad ''NIST'' ''Al'' = Inr example_NistPad"
    by (simp add: example_nistpad_def)
  have h2: "spectrum_loop example_NistPad 5 2.5 0 [] = Inr (replicate 151 0)"
    by (rule spectrum_loop_le_10) simp
  have h3: "trapezoid (replicate 151 0) = 0" by (rule trapezoid_zero)
  from zero_total_not_finite [where nistpad = example_nistpad and folder = "''NIST''"
      and filter_material = "''Al''", OF h1 h2 h3] h1 h2 h3
  show ?thesis by blast
qed

text \<open>
  C5. If the tube potential is outside 0..150 (0 or 200, say) or the filtration is negative,
  the function raises an input-validation error before any table access and returns nothing.

  The function validates nothing: at tube potential 200, and at filtration -1, it returns a
  sequence of 151 entries.
\<close>

theorem input_validation_counterexample:
  "map_sum id length (Tasmip example_nistpad 200 0 ''Al'' ''NIST'') = Inr 151 \<and>
   map_sum id length (Tasmip example_nistpad 80 (- 1) ''Al'' ''NIST'') = Inr 151 \<and>
   Tasmip example_nistpad 0 0 ''Al'' ''NIST'' = Inr (replicate 151 NaN)"
proof -
  have h1: "example_nistpad ''NIST'' ''Al'' = Inr example_NistPad"
    by (simp add: example_nistpad_def)
  have q: "\<forall>n. queried tp n \<longrightarrow> (\<exists>mu. example_NistPad (real n / 1000) = Inr mu)" for tp
    by (simp add: example_NistPad_def)
  have "map_sum id length (Tasmip example_nistpad tp mm ''Al'' ''NIST'') = Inr 151" for tp mm
  proof -
    obtain bins where b: "spectrum_loop example_NistPad tp mm 0 [] = Inr bins"
      using spectrum_loop_total [OF q] by blast
    then have "length bins = 151" by (simp add: spectrum_loop_iff)
    then show ?thesis
      using Tasmip_bins [where nistpad = example_nistpad and folder = "''NIST''"
          and material = "''Al''", OF h1 b] by simp
  qed
  then show ?thesis using Tasmip_le_10 [where nistpad = example_nistpad and folder = "''NIST''"
      and material = "''Al''", OF h1, of 0 0] by simp
qed

text \<open>
  C5 as amended. The function checks neither the tube potential nor the filtration: for every
  tube potential (also outside 0..150) and every filtration (also negative), if the provider is
  constructed and answers each query, it returns a sequence of 151 entries. The tables are read
  at the bin index \<open>n < 151\<close> and at \<open>4 * n + t\<close> with \<open>t\<close> below the degree of the bin,
  never at the tube potential, so every read is in range.
\<close>

theorem no_input_validation:
  assumes "nistpad folder filter_material = Inr NistAl"
    and "\<forall>n. queried tube_potential n \<longrightarrow> (\<exists>mu. NistAl (real n / 1000) = Inr mu)"
  shows "(\<exists>out. Tasmip nistpad tube_potential mm_filtration filter_material folder = Inr out \<and>
            length out = 151) \<and>
         (\<forall>n < 151. n < length num_polynomial_terms \<and>
            (\<forall>t < num_polynomial_terms ! n. 4 * n + t < length polynomial_coefficients))"
proof -
  obtain bins where b: "spectrum_loop NistAl tube_potential mm_filtration 0 [] = Inr bins"
    using spectrum_loop_total [OF assms(2)] by blast
  then have "length bins = 151" by (simp add: spectrum_loop_iff)
  then have "\<exists>out. Tasmip nistpad tube_potential mm_filtration filter_material folder = Inr out \<and>
               length out = 151"
    using Tasmip_bins [where nistpad = nistpad and folder = folder
        and material = filter_material, OF assms(1) b] by simp
  moreover have "4 * n + t < length polynomial_coefficients"
    if "n < 151" "t < num_polynomial_terms ! n" for n t
    using that num_polynomial_terms_le_4 [of n] by (simp add: length_polynomial_coefficients)
  ultimately show ?thesis by (simp add: length_num_polynomial_terms)
qed

theorem no_input_validation_witness:
  "example_nistpad ''NIST'' ''Al'' = Inr example_NistPad \<and>
   (\<exists>out. Tasmip example_nistpad 200 (- 1) ''Al'' ''NIST'' = Inr out \<and> length out = 151)"
proof -
  have h1: "example_nistpad ''NIST'' ''Al'' = Inr example_NistPad"
    by (simp add: example_nistpad_def)
  have h2: "\<forall>n. queried 200 n \<longrightarrow> (\<exists>mu. example_NistPad (real n / 1000) = Inr mu)"
    by (simp add: example_NistPad_def)
  from no_input_validation [where nistpad = example_nistpad and folder = "''NIST''"
      and filter_material = "''Al''", OF h1 h2] h1
  show ?thesis by blast
qed

text \<open>
  C6. For every tube potential in 11..150 with filtration 0 and a provider that answers, every
  entry of the returned spectrum is non-negative.

  The polynomials of the bins 10, 11 and 12 are negative at low tube potentials. At 14 the
  bins are -1.38644592, -21.91620892, -33.396455664 and 67.47240564, the total is
  10.773295136, and entry 10 of the returned spectrum is negative.
\<close>

theorem nonnegative_counterexample:
  "entry (Tasmip example_nistpad 14 0 ''Al'' ''NIST'') 10 = Some (Finite (- (43326435 / 336665473)))"
proof -
  have h1: "example_nistpad ''NIST'' ''Al'' = Inr example_NistPad"
    by (simp add: example_nistpad_def)
  have h2: "\<forall>n. queried 14 n \<longrightarrow> example_NistPad (real n / 1000) = Inr (1 - real n / 1000)"
    by (simp add: example_NistPad_def)
  show ?thesis
    unfolding Tasmip_map [where nistpad = example_nistpad and folder = "''NIST''"
        and material = "''Al''", OF h1 h2] sum_queried_14
    by (simp add: entry_def queried_small polynomial_14 ddiv_def)
qed

text \<open>
  C6 as amended. For every tube potential in 11..150, with filtration 0 and a provider that
  answers, the returned spectrum has 151 finite entries; they are all non-negative exactly
  when the tube potential is in 11..13 or in 31..150. (From 14 to 30 entry 10 is negative.)
\<close>

theorem nonnegative_entries:
  assumes "nistpad folder filter_material = Inr NistAl"
    and "\<forall>n. queried tube_potential n \<longrightarrow> (\<exists>mu. NistAl (real n / 1000) = Inr mu)"
    and "11 \<le> tube_potential" and "tube_potential \<le> 150"
  shows "\<exists>xs. Tasmip nistpad tube_potential 0 filter_material folder = Inr (map Finite xs) \<and>
           length xs = 151 \<and>
           ((\<forall>n < 151. 0 \<le> xs ! n) \<longleftrightarrow> tube_potential \<le> 13 \<or> 31 \<le> tube_potential)"
proof -
  let ?f = "\<lambda>n. if queried tube_potential n then polynomial tube_potential n else 0"
  let ?T = "\<Sum>n = 0..<151. ?f n"
  let ?xs = "map (\<lambda>n. ?f n / ?T) [0..<151]"
  obtain mu where mu: "\<forall>n. queried tube_potential n \<longrightarrow> NistAl (real n / 1000) = Inr (mu n)"
    using assms(2) by metis
  have q10: "queried tube_potential 10" using assms(3) by (intro queried_10) auto
  consider (low) "tube_potential \<le> 13" | (mid) "14 \<le> tube_potential" "tube_potential \<le> 30"
    | (high) "31 \<le> tube_potential" by linarith
  then have "?T \<noteq> 0 \<and>
    ((\<forall>n < 151. 0 \<le> ?f n / ?T) \<longleftrightarrow> tube_potential \<le> 13 \<or> 31 \<le> tube_potential)"
  proof cases
    case low
    then have neg: "?f n \<le> 0" for n
      using assms(3) polynomial_neg [of tube_potential n] by (simp add: less_imp_le)
    have "?f 10 < 0" using low assms(3) q10 polynomial_neg [of tube_potential 10] by simp
    then have "0 < (\<Sum>n = 0..<151. - ?f n)"
      using neg by (intro sum_pos2 [where i = 10]) auto
    then have "?T < 0" by (simp add: sum_negf)
    then show ?thesis using neg low by (simp add: divide_nonpos_neg)
  next
    case mid
    have T: "0 < ?T" using mid by (rule total_pos_low)
    have "?f 10 < 0" using q10 polynomial_10_neg [OF mid] by simp
    then have "?f 10 / ?T < 0" using T by (simp add: divide_neg_pos)
    then have "\<not> 0 \<le> ?f 10 / ?T" by linarith
    moreover have "(10::nat) < 151" by simp
    ultimately have "\<not> (\<forall>n < 151. 0 \<le> ?f n / ?T)" by blast
    then show ?thesis using T mid by simp
  next
    case high
    then have pos: "0 \<le> ?f n" for n
      using assms(4) polynomial_pos [of tube_potential n] by (simp add: less_imp_le)
    have "0 < ?f 10" using high assms(4) q10 polynomial_pos [of tube_potential 10] by simp
    then have "0 < ?T"
      using pos by (intro sum_pos2 [where i = 10]) auto
    then show ?thesis using pos high by simp
  qed
  then have nz: "?T \<noteq> 0"
    and iff: "(\<forall>n < 151. 0 \<le> ?f n / ?T) \<longleftrightarrow> tube_potential \<le> 13 \<or> 31 \<le> tube_potential"
    by blast+
  have nz': "(\<Sum>n = 0..<151. if queried tube_potential n
               then polynomial tube_potential n * exp (- mu n * 0 / 10) else 0) \<noteq> 0"
    using nz by (simp cong: if_cong)
  have "Tasmip nistpad tube_potential 0 filter_material folder = Inr (map Finite ?xs)"
    using Tasmip_map_Finite [where nistpad = nistpad and folder = folder
        and material = filter_material, OF assms(1) mu nz'] by (simp cong: if_cong)
  moreover have "(\<forall>n < 151. 0 \<le> ?xs ! n) \<longleftrightarrow> (\<forall>n < 151. 0 \<le> ?f n / ?T)"
    by simp
  ultimately show ?thesis using iff by (intro exI [of _ ?xs]) simp
qed

theorem nonnegative_entries_witness:
  "example_nistpad ''NIST'' ''Al'' = Inr example_NistPad \<and>
   (\<exists>xs. Tasmip example_nistpad 80 0 ''Al'' ''NIST'' = Inr (map Finite xs) \<and>
      length xs = 151 \<and> (\<forall>n < 151. 0 \<le> xs ! n))"
proof -
  have h1: "example_nistpad ''NIST'' ''Al'' = Inr example_NistPad"
    by (simp add: example_nistpad_def)
  have h2: "\<forall>n. queried 80 n \<longrightarrow> (\<exists>mu. example_NistPad (real n / 1000) = Inr mu)"
    by (simp add: example_NistPad_def)
  have h3: "(11::int) \<le> 80" and h4: "(80::int) \<le> 150" by simp_all
  from nonnegative_entries [where nistpad = example_nistpad and folder = "''NIST''"
      and filter_material = "''Al''", OF h1 h2 h3 h4] h1
  show ?thesis by simp
qed




text \<open>
  C8. The function is deterministic: two invocations with the same tube potential, filtration,
  material and data source, whose providers return the same answer at every queried energy,
  return the same sequence, of 151 entries.
\<close>

theorem deterministic:
  assumes "nistpad folder filter_material = Inr NistAl"
    and "nistpad' folder filter_material = Inr NistAl'"
    and "\<forall>n. queried tube_potential n \<longrightarrow> NistAl (real n / 1000) = NistAl' (real n / 1000)"
  shows "Tasmip nistpad tube_potential mm_filtration filter_material folder =
         Tasmip nistpad' tube_potential mm_filtration filter_material folder \<and>
         (\<forall>out. Tasmip nistpad tube_potential mm_filtration filter_material folder = Inr out \<longrightarrow>
            length out = 151)"
proof -
  have "bin_value NistAl tube_potential mm_filtration k =
        bin_value NistAl' tube_potential mm_filtration k" if "k < 151" for k
  proof (cases "queried tube_potential k")
    case True
    then have "NistAl (real k / 1000) = NistAl' (real k / 1000)" using assms(3) by blast
    then show ?thesis by (simp add: bin_value_def)
  next
    case False
    then show ?thesis using that by (simp add: bin_value_not_queried)
  qed
  then have "Tasmip nistpad tube_potential mm_filtration filter_material folder =
         Tasmip nistpad' tube_potential mm_filtration filter_material folder"
    using assms(1,2) by (intro Tasmip_cong) auto
  then show ?thesis using Tasmip_length by blast
qed

theorem deterministic_witness:
  "example_nistpad ''NIST'' ''Al'' = Inr example_NistPad \<and>
   short_nistpad ''NIST'' ''Al'' = Inr short_NistPad \<and>
   example_NistPad (real 10 / 1000) = short_NistPad (real 10 / 1000) \<and>
   example_NistPad (real 60 / 1000) \<noteq> short_NistPad (real 60 / 1000) \<and>
   Tasmip example_nistpad 11 2 ''Al'' ''NIST'' = Tasmip short_nistpad 11 2 ''Al'' ''NIST''"
proof -
  have h1: "example_nistpad ''NIST'' ''Al'' = Inr example_NistPad"
    by (simp add: example_nistpad_def)
  have h2: "short_nistpad ''NIST'' ''Al'' = Inr short_NistPad"
    by (simp add: short_nistpad_def)
  have h3: "\<forall>n. queried 11 n \<longrightarrow> example_NistPad (real n / 1000) = short_NistPad (real n / 1000)"
    by (simp add: queried_11 example_NistPad_def short_NistPad_def)
  from deterministic [where nistpad = example_nistpad and nistpad' = short_nistpad
      and folder = "''NIST''" and filter_material = "''Al''", OF h1 h2 h3] h1 h2
  show ?thesis by (simp add: example_NistPad_def short_NistPad_def)
qed

text \<open>
  C9. With \<open>filtration_mm = 0\<close> the returned spectrum does not depend on the coefficients the
  provider returns: two runs that differ only in these (all queries succeeding) return the
  same sequence, the attenuation factor \<open>exp (- mu * 0 * 0.1)\<close> being 1 for every \<open>mu\<close>.
\<close>

theorem unfiltered_independent_of_provider:
  assumes "nistpad folder filter_material = Inr NistAl"
    and "nistpad' folder filter_material = Inr NistAl'"
    and "\<forall>n. queried tube_potential n \<longrightarrow> (\<exists>mu. NistAl (real n / 1000) = Inr mu)"
    and "\<forall>n. queried tube_potential n \<longrightarrow> (\<exists>mu. NistAl' (real n / 1000) = Inr mu)"
  shows "Tasmip nistpad tube_potential 0 filter_material folder =
         Tasmip nistpad' tube_potential 0 filter_material folder"
proof -
  have "bin_value NistAl tube_potential 0 k = bin_value NistAl' tube_potential 0 k"
    if "k < 151" for k
  proof (cases "queried tube_potential k")
    case True
    then obtain mu mu' where "NistAl (real k / 1000) = Inr mu" "NistAl' (real k / 1000) = Inr mu'"
      using assms(3,4) by blast
    then show ?thesis using True by (simp add: bin_value_unfiltered)
  next
    case False
    then show ?thesis using that by (simp add: bin_value_not_queried)
  qed
  then show ?thesis using assms(1,2) by (intro Tasmip_cong) auto
qed

theorem unfiltered_independent_of_provider_witness:
  "example_nistpad ''NIST'' ''Al'' = Inr example_NistPad \<and>
   other_nistpad ''NIST'' ''Al'' = Inr other_NistPad \<and>
   example_NistPad (real 10 / 1000) \<noteq> other_NistPad (real 10 / 1000) \<and>
   Tasmip example_nistpad 80 0 ''Al'' ''NIST'' = Tasmip other_nistpad 80 0 ''Al'' ''NIST''"
proof -
  have h1: "example_nistpad ''NIST'' ''Al'' = Inr example_NistPad"
    by (simp add: example_nistpad_def)
  have h2: "other_nistpad ''NIST'' ''Al'' = Inr other_NistPad"
    by (simp add: other_nistpad_def)
  have h3: "\<forall>n. queried 80 n \<longrightarrow> (\<exists>mu. example_NistPad (real n / 1000) = Inr mu)"
    by (simp add: example_NistPad_def)
  have h4: "\<forall>n. queried 80 n \<longrightarrow> (\<exists>mu. other_NistPad (real n / 1000) = Inr mu)"
    by (simp add: other_NistPad_def)
  have h5: "example_NistPad (real 10 / 1000) \<noteq> other_NistPad (real 10 / 1000)"
    by (simp add: example_NistPad_def other_NistPad_def)
  from unfiltered_independent_of_provider [where nistpad = example_nistpad
      and nistpad' = other_nistpad and folder = "''NIST''" and filter_material = "''Al''",
      OF h1 h2 h3 h4] h1 h2 h5
  show ?thesis by blast
qed

end
